theory Spec2Isabelle
  imports Main "HOL-Library.Word"
begin

unbundle bit_operations_syntax

section \<open>Cycles mesh geometry: \<open>intern/cycles/render/mesh.h\<close>\<close>

subsection \<open>Machine types\<close>

text \<open>
  C++ \<open>int\<close> and \<open>uint\<close> are 32 bits wide on every platform Cycles builds for.
  Both are 32-bit words; \<open>sint\<close> reads an \<open>int\<close>, \<open>unat\<close> a \<open>uint\<close>. The literal
  \<open>-1\<close> of the source is the word \<open>-1\<close> (all bits set).
\<close>

type_synonym int32 = "32 word"
type_synonym uint = "32 word"

text \<open>
  A C array of four elements, \<open>T a[4]\<close>. \<open>at4 a i\<close> is \<open>a[i]\<close>; the source reads these
  arrays only at the literal index 3 and at loop indices below 4.
\<close>

datatype 'a array4 = Array4 'a 'a 'a 'a

fun at4 :: "'a array4 \<Rightarrow> nat \<Rightarrow> 'a" where
  "at4 (Array4 a0 a1 a2 a3) i =
     (if i = 0 then a0 else if i = 1 then a1 else if i = 2 then a2 else a3)"

subsection \<open>Mesh Curve\<close>

text \<open>
  \<^verbatim>\<open>struct Curve { int first_key; int num_keys; uint shader;
                  int num_segments() { return num_keys - 1; } };\<close>
\<close>

record Curve =
  first_key :: int32
  num_keys :: int32
  curve_shader :: uint

definition num_segments :: "Curve \<Rightarrow> int32" where
  "num_segments c = num_keys c - 1"

subsection \<open>Mesh Patch\<close>

text \<open>
  \<^verbatim>\<open>struct Patch { int v[4]; /* v[3] is -1 if triangle patch */
                  uint shader; bool smooth;
                  bool is_quad() const { return v[3] != -1; } };\<close>
\<close>

record Patch =
  patch_v :: "int32 array4"
  patch_shader :: uint
  patch_smooth :: bool

definition Patch_is_quad :: "Patch \<Rightarrow> bool" where
  "Patch_is_quad p = (at4 (patch_v p) 3 \<noteq> -1)"

subsection \<open>Floating-point values used by SubPatch\<close>

text \<open>
  \<open>SubPatch\<close> stores \<open>float\<close> values and compares them; it does no arithmetic on
  them. A \<open>float\<close> is its IEEE 754 binary32 bit pattern (1 sign bit, 8 exponent bits,
  23 fraction bits), and the C++ comparison \<open>a == b\<close> on it is the IEEE one: false as
  soon as one side is a NaN, true for two zeros of either sign, and otherwise true
  exactly for equal bit patterns (every other value has one encoding).
\<close>

datatype float = Float (float_bits: "32 word")

definition float_is_nan :: "float \<Rightarrow> bool" where
  "float_is_nan f =
     (float_bits f AND 0x7F800000 = 0x7F800000 \<and> float_bits f AND 0x007FFFFF \<noteq> 0)"

definition float_is_zero :: "float \<Rightarrow> bool" where
  "float_is_zero f = (float_bits f AND 0x7FFFFFFF = 0)"

definition float_eq :: "float \<Rightarrow> float \<Rightarrow> bool" where
  "float_eq a b =
     (if float_is_nan a then False
      else if float_is_nan b then False
      else if float_is_zero a then float_is_zero b
      else a = b)"

text \<open>
  Modelled from the spec: \<open>float2\<close> with its operators \<open>==\<close> and \<open>!=\<close>, \<open>float3\<close>
  and \<open>BoundBox\<close>, which \<open>mesh.h\<close> uses and which are declared in \<open>util_types.h\<close>,
  \<open>util_math.h\<close> and \<open>util_boundbox.h\<close>, not among the sources. The spec has a
  corner UV as a coordinate pair, two UVs matching when their coordinates do, and a
  bounding volume; so a \<open>float2\<close> is a pair \<open>x\<close>, \<open>y\<close> of floats, \<open>a == b\<close> on it is
  \<open>a.x == b.x && a.y == b.y\<close>, \<open>a != b\<close> is \<open>!(a == b)\<close>, and a \<open>BoundBox\<close> is its
  two corners \<open>min\<close> and \<open>max\<close>.
\<close>

datatype float2 = make_float2 (float2_x: float) (float2_y: float)

definition float2_eq :: "float2 \<Rightarrow> float2 \<Rightarrow> bool" where
  "float2_eq a b = (float_eq (float2_x a) (float2_x b) \<and> float_eq (float2_y a) (float2_y b))"

definition float2_ne :: "float2 \<Rightarrow> float2 \<Rightarrow> bool" where
  "float2_ne a b = (\<not> float2_eq a b)"

definition float2_has_nan :: "float2 \<Rightarrow> bool" where
  "float2_has_nan a = (float_is_nan (float2_x a) \<or> float_is_nan (float2_y a))"

datatype float3 = make_float3 (float3_x: float) (float3_y: float) (float3_z: float)

record BoundBox =
  bb_min :: float3
  bb_max :: float3

subsection \<open>Mesh SubPatch\<close>

text \<open>
  \<^verbatim>\<open>struct SubPatch {
    int patch;
    int edge_factors[4];
    float2 uv[4];
    BoundBox bounds;
    bool is_quad() const { return edge_factors[3] != -1; }
    bool operator == (const SubPatch& other) const
    {
      if(patch != other.patch)
        return false;
      for(int i = 0; i < 4; i++) {
        if((edge_factors[i] != other.edge_factors[i]) || (uv[i] != other.uv[i]))
          return false;
      }
      return true;
    }
    bool operator != (const SubPatch& other) const { return !(*this == other); }
  };\<close>
\<close>

record SubPatch =
  patch :: int32
  edge_factors :: "int32 array4"
  uv :: "float2 array4"
  bounds :: BoundBox

definition SubPatch_is_quad :: "SubPatch \<Rightarrow> bool" where
  "SubPatch_is_quad s = (at4 (edge_factors s) 3 \<noteq> -1)"

text \<open>The \<open>for\<close> loop of \<open>operator ==\<close>, entered at index \<open>i\<close>.\<close>

function SubPatch_eq_loop :: "SubPatch \<Rightarrow> SubPatch \<Rightarrow> nat \<Rightarrow> bool" where
  "SubPatch_eq_loop a b i =
     (if i < 4 then
        (if at4 (edge_factors a) i \<noteq> at4 (edge_factors b) i
            \<or> float2_ne (at4 (uv a) i) (at4 (uv b) i)
         then False
         else SubPatch_eq_loop a b (Suc i))
      else True)"
  by pat_completeness auto
termination
  by (relation "measure (\<lambda>(a, b, i). 4 - i)") auto

definition SubPatch_eq :: "SubPatch \<Rightarrow> SubPatch \<Rightarrow> bool" where
  "SubPatch_eq a b = (if patch a \<noteq> patch b then False else SubPatch_eq_loop a b 0)"

definition SubPatch_ne :: "SubPatch \<Rightarrow> SubPatch \<Rightarrow> bool" where
  "SubPatch_ne a b = (\<not> SubPatch_eq a b)"

text \<open>
  What one round of the loop tests at corner \<open>j\<close>, and whether some corner UV of a
  subpatch has a NaN component.
\<close>

definition corner_eq :: "SubPatch \<Rightarrow> SubPatch \<Rightarrow> nat \<Rightarrow> bool" where
  "corner_eq a b j =
     (at4 (edge_factors a) j = at4 (edge_factors b) j \<and> float2_eq (at4 (uv a) j) (at4 (uv b) j))"

definition SubPatch_uv_has_nan :: "SubPatch \<Rightarrow> bool" where
  "SubPatch_uv_has_nan s =
     (float2_has_nan (at4 (uv s) 0) \<or> float2_has_nan (at4 (uv s) 1)
      \<or> float2_has_nan (at4 (uv s) 2) \<or> float2_has_nan (at4 (uv s) 3))"

text \<open>
  Sample subpatches: a quad with corner UVs on the unit square, two bounding boxes for
  it, and the same quad with a quiet NaN (\<open>0x7FC00000\<close>) as \<open>u\<close> of its first
  corner. \<open>0x3F800000\<close> is \<open>1.0f\<close>.
\<close>

definition unit_uvs :: "float2 array4" where
  "unit_uvs = Array4 (make_float2 (Float 0) (Float 0)) (make_float2 (Float 0x3F800000) (Float 0))
                     (make_float2 (Float 0) (Float 0x3F800000))
                     (make_float2 (Float 0x3F800000) (Float 0x3F800000))"

definition zero_box :: BoundBox where
  "zero_box = \<lparr>bb_min = make_float3 (Float 0) (Float 0) (Float 0),
               bb_max = make_float3 (Float 0) (Float 0) (Float 0)\<rparr>"

definition unit_box :: BoundBox where
  "unit_box = \<lparr>bb_min = make_float3 (Float 0) (Float 0) (Float 0),
               bb_max = make_float3 (Float 0x3F800000) (Float 0x3F800000) (Float 0x3F800000)\<rparr>"

definition quad_subpatch :: SubPatch where
  "quad_subpatch = \<lparr>patch = 0, edge_factors = Array4 2 2 2 2, uv = unit_uvs, bounds = zero_box\<rparr>"

definition nan_subpatch :: SubPatch where
  "nan_subpatch =
     \<lparr>patch = 0, edge_factors = Array4 2 2 2 2,
      uv = Array4 (make_float2 (Float 0x7FC00000) (Float 0)) (make_float2 (Float 0x3F800000) (Float 0))
                  (make_float2 (Float 0) (Float 0x3F800000))
                  (make_float2 (Float 0x3F800000) (Float 0x3F800000)),
      bounds = zero_box\<rparr>"

subsection \<open>Mesh and its update flags\<close>

text \<open>\<^verbatim>\<open>struct Triangle { int v[3]; };\<close> and \<open>float4\<close> (curve keys are \<open>co + radius\<close>).\<close>

datatype 'a array3 = Array3 'a 'a 'a

fun at3 :: "'a array3 \<Rightarrow> nat \<Rightarrow> 'a" where
  "at3 (Array3 a0 a1 a2) i = (if i = 0 then a0 else if i = 1 then a1 else a2)"

record Triangle =
  tri_v :: "int32 array3"

datatype float4 =
  make_float4 (float4_x: float) (float4_y: float) (float4_z: float) (float4_w: float)

text \<open>
  The fields of \<open>class Mesh\<close> that the operations below read or write: the geometry
  arrays, the two update flags and the \<open>size_t\<close> offsets into the scene-wide buffers.
\<close>

record Mesh =
  verts :: "float3 list"
  triangles :: "Triangle list"
  curve_keys :: "float4 list"
  curves :: "Curve list"
  patches :: "Patch list"
  subpatches :: "SubPatch list"
  need_update :: bool
  need_update_rebuild :: bool
  tri_offset :: nat
  vert_offset :: nat
  curve_offset :: nat
  curvekey_offset :: nat
  patch_offset :: nat

text \<open>
  \<open>class MeshManager\<close>: its flag \<open>need_update\<close> is the field \<open>manager_need_update\<close>
  here (the name \<open>need_update\<close> is the mesh's). A scene holds its meshes and its mesh
  manager; a mesh is named by its position in \<open>scene->meshes\<close>.
\<close>

record MeshManager =
  manager_need_update :: bool
  need_flags_update :: bool
  need_clear_geom_cache :: bool

record Scene =
  meshes :: "Mesh list"
  mesh_manager :: MeshManager

text \<open>
  Modelled from the spec: \<open>Mesh::tag_update(Scene *scene, bool rebuild)\<close>, declared in
  \<open>mesh.h\<close> with its body in \<open>mesh.cpp\<close>, which is not among the sources. The spec
  (Update Tracker): \<open>need_update\<close> is set whenever a geometry-affecting field changes,
  \<open>need_update_rebuild\<close> is set when a change invalidates the acceleration structure,
  neither is cleared before a device-update pass completes, and \<open>tag_update\<close> is the only
  mutator and propagates to the scene-wide manager flags.
\<close>

definition Mesh_tag_update :: "bool \<Rightarrow> Mesh \<Rightarrow> Mesh" where
  "Mesh_tag_update rebuild m =
     (let m1 = m\<lparr>need_update := True\<rparr>
      in if rebuild then m1\<lparr>need_update_rebuild := True\<rparr> else m1)"

definition tag_update :: "nat \<Rightarrow> bool \<Rightarrow> Scene \<Rightarrow> Scene" where
  "tag_update i rebuild scene =
     scene\<lparr>meshes := (meshes scene)[i := Mesh_tag_update rebuild (meshes scene ! i)],
           mesh_manager := (mesh_manager scene)\<lparr>manager_need_update := True\<rparr>\<rparr>"

text \<open>
  Modelled from the spec: \<open>MeshManager::device_update\<close>, declared in \<open>mesh.h\<close> with its
  body in \<open>mesh.cpp\<close>, as far as the update flags go. The spec (Mesh Manager, Resource
  Model): all stages are skipped when the manager's flag is clear; a cancelled pass
  leaves every flag dirty; a completed pass clears \<open>need_update\<close> and, together with
  it, \<open>need_update_rebuild\<close> of every mesh.
\<close>

datatype pass_outcome = Completed | Cancelled

definition Mesh_clear_update :: "Mesh \<Rightarrow> Mesh" where
  "Mesh_clear_update m = m\<lparr>need_update := False, need_update_rebuild := False\<rparr>"

definition device_update :: "pass_outcome \<Rightarrow> Scene \<Rightarrow> Scene" where
  "device_update outcome scene =
     (if \<not> manager_need_update (mesh_manager scene) then scene
      else case outcome of
        Cancelled \<Rightarrow> scene
      | Completed \<Rightarrow>
          scene\<lparr>meshes := map Mesh_clear_update (meshes scene),
                mesh_manager := (mesh_manager scene)\<lparr>manager_need_update := False\<rparr>\<rparr>)"

text \<open>What happens to a scene between two moments: meshes are tagged and passes run.\<close>

datatype event = TagUpdate nat bool | DeviceUpdate pass_outcome

fun step :: "event \<Rightarrow> Scene \<Rightarrow> Scene" where
  "step (TagUpdate i rebuild) scene = tag_update i rebuild scene"
| "step (DeviceUpdate outcome) scene = device_update outcome scene"

fun run :: "event list \<Rightarrow> Scene \<Rightarrow> Scene" where
  "run [] scene = scene"
| "run (e # es) scene = run es (step e scene)"

text \<open>
  The flags of mesh \<open>i\<close>: both set, both clear, and both set with the manager's flag
  set as well (the state a tagged mesh stays in until a pass completes).
\<close>

definition both_flags :: "Scene \<Rightarrow> nat \<Rightarrow> bool" where
  "both_flags scene i =
     (need_update (meshes scene ! i) \<and> need_update_rebuild (meshes scene ! i))"

definition no_flag :: "Scene \<Rightarrow> nat \<Rightarrow> bool" where
  "no_flag scene i =
     (\<not> need_update (meshes scene ! i) \<and> \<not> need_update_rebuild (meshes scene ! i))"

definition dirty :: "Scene \<Rightarrow> nat \<Rightarrow> bool" where
  "dirty scene i = (manager_need_update (mesh_manager scene) \<and> both_flags scene i)"

subsection \<open>Own BVH\<close>

text \<open>
  Modelled from the spec: \<open>Mesh::need_build_bvh() const\<close>, declared in \<open>mesh.h\<close> with
  its body in \<open>mesh.cpp\<close>. The comment on the declaration: an own BVH is needed if the
  mesh is instanced multiple times, or if special ray intersection is needed (to limit
  subsurface rays to the mesh itself). The spec: true when the mesh is referenced by
  multiple instances or requires primitive-specific intersection handling, false when
  a shared structure suffices. The number of instances comes from the scene's object
  list and the need for special intersection from the shaders, so both are arguments.
\<close>

definition need_build_bvh :: "nat \<Rightarrow> bool \<Rightarrow> bool" where
  "need_build_bvh num_instances special_intersection =
     (1 < num_instances \<or> special_intersection)"

subsection \<open>Device Packer\<close>

text \<open>
  The output arrays are caller-allocated; \<open>pack_verts\<close> and \<open>pack_curves\<close> receive
  pointers to the first slot they may write. An array is the list of its slots from
  that pointer on. Writing past its end, or reading a vertex through an index outside
  \<open>verts\<close>, is undefined in C++: the result is \<open>None\<close>.
\<close>

definition store :: "'a list \<Rightarrow> nat \<Rightarrow> 'a \<Rightarrow> 'a list option" where
  "store xs i x = (if i < length xs then Some (xs[i := x]) else None)"

definition vert_at :: "Mesh \<Rightarrow> int32 \<Rightarrow> float3 option" where
  "vert_at m v =
     (if 0 \<le> sint v \<and> nat (sint v) < length (verts m) then Some (verts m ! nat (sint v))
      else None)"

text \<open>
  The index record of a triangle holds its three vertex indices made absolute by the
  base offset. The loop builds it after it has read the three vertices, so for indices
  that are inside \<open>verts\<close>.
\<close>

type_synonym index_record = "nat \<times> nat \<times> nat"

definition tri_index_record :: "Triangle \<Rightarrow> nat \<Rightarrow> index_record" where
  "tri_index_record t off =
     (nat (sint (at3 (tri_v t) 0)) + off, nat (sint (at3 (tri_v t) 1)) + off,
      nat (sint (at3 (tri_v t) 2)) + off)"

text \<open>
  Modelled from the spec: \<open>Mesh::pack_verts(float4 *tri_verts, float4 *tri_vindex,
  size_t vert_offset)\<close>, declared in \<open>mesh.h\<close> with its body in \<open>mesh.cpp\<close>. The spec
  (Device Packer): it emits, per triangle, its 3 resolved vertex positions and an index
  record; offsets are absolute within the scene-wide buffer and recorded back into the
  mesh. Triangle \<open>i\<close> fills slots \<open>3i\<close>, \<open>3i+1\<close>, \<open>3i+2\<close> of \<open>tri_verts\<close> and slot
  \<open>i\<close> of \<open>tri_vindex\<close>.
\<close>

fun pack_verts_loop ::
  "Mesh \<Rightarrow> nat \<Rightarrow> Triangle list \<Rightarrow> nat \<Rightarrow> float3 list \<Rightarrow> index_record list
   \<Rightarrow> (float3 list \<times> index_record list) option" where
  "pack_verts_loop m off [] i tri_verts tri_vindex = Some (tri_verts, tri_vindex)"
| "pack_verts_loop m off (t # ts) i tri_verts tri_vindex =
     (case vert_at m (at3 (tri_v t) 0) of None \<Rightarrow> None | Some p0 \<Rightarrow>
      case vert_at m (at3 (tri_v t) 1) of None \<Rightarrow> None | Some p1 \<Rightarrow>
      case vert_at m (at3 (tri_v t) 2) of None \<Rightarrow> None | Some p2 \<Rightarrow>
      case store tri_verts (3 * i) p0 of None \<Rightarrow> None | Some tv0 \<Rightarrow>
      case store tv0 (3 * i + 1) p1 of None \<Rightarrow> None | Some tv1 \<Rightarrow>
      case store tv1 (3 * i + 2) p2 of None \<Rightarrow> None | Some tv2 \<Rightarrow>
      case store tri_vindex i (tri_index_record t off) of None \<Rightarrow> None | Some ti \<Rightarrow>
        pack_verts_loop m off ts (Suc i) tv2 ti)"

definition pack_verts ::
  "Mesh \<Rightarrow> float3 list \<Rightarrow> index_record list \<Rightarrow> nat
   \<Rightarrow> (Mesh \<times> float3 list \<times> index_record list) option" where
  "pack_verts m tri_verts tri_vindex off =
     (case pack_verts_loop m off (triangles m) 0 tri_verts tri_vindex of
        None \<Rightarrow> None
      | Some (tv, ti) \<Rightarrow> Some (m\<lparr>vert_offset := off\<rparr>, tv, ti))"

text \<open>
  Modelled from the spec: \<open>Mesh::pack_curves(Scene *scene, float4 *curve_key_co,
  float4 *curve_data, size_t curvekey_offset)\<close>, declared in \<open>mesh.h\<close> with its body in
  \<open>mesh.cpp\<close>. The spec: the analogous flattening for curve primitives, recording the
  offset in the mesh. Key \<open>j\<close> (position and radius) fills slot \<open>j\<close> of
  \<open>curve_key_co\<close>; curve \<open>i\<close> fills slot \<open>i\<close> of \<open>curve_data\<close> with its first key
  made absolute, its key count and its shader. Nothing the spec describes reads the
  scene, which is left out.
\<close>

type_synonym curve_record = "nat \<times> int32 \<times> uint"

definition curve_data_record :: "Curve \<Rightarrow> nat \<Rightarrow> curve_record option" where
  "curve_data_record c off =
     (if 0 \<le> sint (first_key c) then Some (nat (sint (first_key c)) + off, num_keys c, curve_shader c)
      else None)"

fun pack_keys_loop :: "float4 list \<Rightarrow> nat \<Rightarrow> float4 list \<Rightarrow> float4 list option" where
  "pack_keys_loop [] j curve_key_co = Some curve_key_co"
| "pack_keys_loop (k # ks) j curve_key_co =
     (case store curve_key_co j k of None \<Rightarrow> None | Some co \<Rightarrow> pack_keys_loop ks (Suc j) co)"

fun pack_curves_loop ::
  "nat \<Rightarrow> Curve list \<Rightarrow> nat \<Rightarrow> curve_record list \<Rightarrow> curve_record list option" where
  "pack_curves_loop off [] i curve_data = Some curve_data"
| "pack_curves_loop off (c # cs) i curve_data =
     (case curve_data_record c off of None \<Rightarrow> None | Some r \<Rightarrow>
      case store curve_data i r of None \<Rightarrow> None | Some cd \<Rightarrow>
        pack_curves_loop off cs (Suc i) cd)"

definition pack_curves ::
  "Mesh \<Rightarrow> float4 list \<Rightarrow> curve_record list \<Rightarrow> nat
   \<Rightarrow> (Mesh \<times> float4 list \<times> curve_record list) option" where
  "pack_curves m curve_key_co curve_data off =
     (case pack_keys_loop (curve_keys m) 0 curve_key_co of None \<Rightarrow> None | Some co \<Rightarrow>
      case pack_curves_loop off (curves m) 0 curve_data of None \<Rightarrow> None | Some cd \<Rightarrow>
        Some (m\<lparr>curvekey_offset := off\<rparr>, co, cd))"

text \<open>A mesh of one triangle and one curve of two keys, for the examples.\<close>

definition sample_mesh :: Mesh where
  "sample_mesh =
     \<lparr>verts = [make_float3 (Float 0) (Float 0) (Float 0),
               make_float3 (Float 0x3F800000) (Float 0) (Float 0),
               make_float3 (Float 0) (Float 0x3F800000) (Float 0)],
      triangles = [\<lparr>tri_v = Array3 0 1 2\<rparr>],
      curve_keys = [make_float4 (Float 0) (Float 0) (Float 0) (Float 0x3F800000),
                    make_float4 (Float 0) (Float 0) (Float 0x3F800000) (Float 0x3F800000)],
      curves = [\<lparr>first_key = 0, num_keys = 2, curve_shader = 0\<rparr>],
      patches = [], subpatches = [],
      need_update = False, need_update_rebuild = False,
      tri_offset = 0, vert_offset = 0, curve_offset = 0, curvekey_offset = 0,
      patch_offset = 0\<rparr>"

definition sample_tri_verts :: "float3 list" where
  "sample_tri_verts = replicate 4 (make_float3 (Float 7) (Float 7) (Float 7))"

definition sample_tri_vindex :: "index_record list" where
  "sample_tri_vindex = [(9, 9, 9), (8, 8, 8)]"

definition sample_curve_key_co :: "float4 list" where
  "sample_curve_key_co = replicate 3 (make_float4 (Float 7) (Float 7) (Float 7) (Float 7))"

definition sample_curve_data :: "curve_record list" where
  "sample_curve_data = [(9, 9, 9), (8, 8, 8)]"

text \<open>What the arrays hold once the sample mesh is packed at base offset 10.\<close>

definition packed_tri_verts :: "float3 list" where
  "packed_tri_verts =
     [make_float3 (Float 0) (Float 0) (Float 0),
      make_float3 (Float 0x3F800000) (Float 0) (Float 0),
      make_float3 (Float 0) (Float 0x3F800000) (Float 0),
      make_float3 (Float 7) (Float 7) (Float 7)]"

definition packed_tri_vindex :: "index_record list" where
  "packed_tri_vindex = [(10, 11, 12), (8, 8, 8)]"

definition packed_curve_key_co :: "float4 list" where
  "packed_curve_key_co =
     [make_float4 (Float 0) (Float 0) (Float 0) (Float 0x3F800000),
      make_float4 (Float 0) (Float 0) (Float 0x3F800000) (Float 0x3F800000),
      make_float4 (Float 7) (Float 7) (Float 7) (Float 7)]"

definition packed_curve_data :: "curve_record list" where
  "packed_curve_data = [(10, 2, 0), (8, 8, 8)]"

definition blank_tri_verts :: "float3 list" where
  "blank_tri_verts = replicate 3 (make_float3 (Float 0) (Float 0) (Float 0))"

definition blank_tri_vindex :: "index_record list" where
  "blank_tri_vindex = [(0, 0, 0)]"

definition blank_curve_key_co :: "float4 list" where
  "blank_curve_key_co = replicate 2 (make_float4 (Float 0) (Float 0) (Float 0) (Float 0))"

definition blank_curve_data :: "curve_record list" where
  "blank_curve_data = [(0, 0, 0)]"

definition sample_scene :: Scene where
  "sample_scene =
     \<lparr>meshes = [sample_mesh, sample_mesh],
      mesh_manager = \<lparr>manager_need_update = False, need_flags_update = False,
                      need_clear_geom_cache = False\<rparr>\<rparr>"

section \<open>Properties\<close>

declare SubPatch_eq_loop.simps [simp del]

subsection \<open>Curves and patches\<close>

lemma sint_dec32:
  fixes w :: "32 word"
  assumes "sint w \<noteq> - (2 ^ 31)"
  shows "sint (w - 1) = sint w - 1"
proof -
  have lo: "- (2 ^ 31) \<le> sint w" using sint_ge [of w] by simp
  have hi: "sint w < 2 ^ 31" using sint_lt [of w] by simp
  have "sint (w - 1) = signed_take_bit 31 (sint w - 1)"
    by (simp add: sint_word_ariths)
  also have "\<dots> = sint w - 1"
    using lo hi assms by (intro signed_take_bit_int_eq_self) auto
  finally show ?thesis .
qed

lemma sint_minus_one_iff: "(sint (w :: 32 word) = -1) = (w = -1)"
  by (metis sint_n1 signed_word_eqI)

text \<open>
  C7. The segment count of a curve is its key count minus 1: \<open>num_segments\<close> is the
  \<open>int\<close> subtraction \<open>num_keys - 1\<close>, and read as integers the result is the key
  count minus 1 for every key count on which that subtraction does not overflow, that
  is every key count but \<open>INT_MIN\<close> (where the C++ subtraction is undefined).
\<close>

theorem num_segments_is_num_keys_minus_1:
  "num_segments c = num_keys c - 1
   \<and> (sint (num_keys c) \<noteq> - (2 ^ 31) \<longrightarrow> sint (num_segments c) = sint (num_keys c) - 1)"
  by (simp add: num_segments_def sint_dec32)

theorem num_segments_is_num_keys_minus_1_witness:
  "sint (num_keys \<lparr>first_key = 0, num_keys = 5, curve_shader = 0\<rparr>) \<noteq> - (2 ^ 31)
   \<and> sint (num_segments \<lparr>first_key = 0, num_keys = 5, curve_shader = 0\<rparr>) = 4"
  using num_segments_is_num_keys_minus_1 [of "\<lparr>first_key = 0, num_keys = 5, curve_shader = 0\<rparr>"]
  by simp

text \<open>
  C8. A patch is not a quad exactly when its fourth vertex index \<open>v[3]\<close> is \<open>-1\<close>, and
  a subpatch is not a quad exactly when its fourth edge factor is \<open>-1\<close>.
\<close>

theorem is_quad_false_iff_minus_1:
  "(\<not> Patch_is_quad p) = (sint (at4 (patch_v p) 3) = -1)
   \<and> (\<not> SubPatch_is_quad s) = (sint (at4 (edge_factors s) 3) = -1)"
  by (simp add: Patch_is_quad_def SubPatch_is_quad_def sint_minus_one_iff)

theorem is_quad_false_iff_minus_1_witness:
  "\<not> Patch_is_quad \<lparr>patch_v = Array4 0 1 2 (-1), patch_shader = 0, patch_smooth = True\<rparr>
   \<and> SubPatch_is_quad quad_subpatch
   \<and> \<not> SubPatch_is_quad (quad_subpatch\<lparr>edge_factors := Array4 2 2 2 (-1)\<rparr>)"
  using is_quad_false_iff_minus_1
          [of "\<lparr>patch_v = Array4 0 1 2 (-1), patch_shader = 0, patch_smooth = True\<rparr>" quad_subpatch]
        is_quad_false_iff_minus_1
          [of "\<lparr>patch_v = Array4 0 1 2 (-1), patch_shader = 0, patch_smooth = True\<rparr>"
              "quad_subpatch\<lparr>edge_factors := Array4 2 2 2 (-1)\<rparr>"]
  by (simp add: quad_subpatch_def)

subsection \<open>Subpatch equality\<close>

lemma SubPatch_eq_loop_from:
  "SubPatch_eq_loop a b i = (\<forall>j. i \<le> j \<and> j < 4 \<longrightarrow> corner_eq a b j)"
proof (induction a b i rule: SubPatch_eq_loop.induct)
  case (1 a b i)
  show ?case
  proof (cases "i < 4")
    case False
    then show ?thesis by (subst SubPatch_eq_loop.simps) auto
  next
    case True
    show ?thesis
    proof (cases "corner_eq a b i")
      case False
      with True show ?thesis
        by (subst SubPatch_eq_loop.simps) (auto simp: corner_eq_def float2_ne_def)
    next
      case c: True
      then have "SubPatch_eq_loop a b i = SubPatch_eq_loop a b (Suc i)"
        using True by (subst SubPatch_eq_loop.simps) (simp add: corner_eq_def float2_ne_def)
      also have "\<dots> = (\<forall>j. Suc i \<le> j \<and> j < 4 \<longrightarrow> corner_eq a b j)"
        using "1.IH" True c by (simp add: corner_eq_def float2_ne_def)
      also have "\<dots> = (\<forall>j. i \<le> j \<and> j < 4 \<longrightarrow> corner_eq a b j)"
        using c by (metis Suc_leI le_neq_implies_less Suc_leD)
      finally show ?thesis .
    qed
  qed
qed

lemma all_below_4: "(\<forall>j::nat. j < 4 \<longrightarrow> P j) = (P 0 \<and> P 1 \<and> P 2 \<and> P 3)"
proof
  assume "\<forall>j<4. P j"
  then show "P 0 \<and> P 1 \<and> P 2 \<and> P 3" by simp
next
  assume h: "P 0 \<and> P 1 \<and> P 2 \<and> P 3"
  show "\<forall>j<4. P j"
  proof (intro allI impI)
    fix j :: nat
    assume "j < 4"
    then have "j = 0 \<or> j = 1 \<or> j = 2 \<or> j = 3" by arith
    with h show "P j" by auto
  qed
qed

lemma SubPatch_eq_corners:
  "SubPatch_eq a b =
     (patch a = patch b \<and> corner_eq a b 0 \<and> corner_eq a b 1 \<and> corner_eq a b 2 \<and> corner_eq a b 3)"
  by (simp add: SubPatch_eq_def SubPatch_eq_loop_from all_below_4)

lemma array4_eq_iff:
  "(xs = ys) = (at4 xs 0 = at4 ys 0 \<and> at4 xs 1 = at4 ys 1 \<and> at4 xs 2 = at4 ys 2 \<and> at4 xs 3 = at4 ys 3)"
  by (cases xs; cases ys) simp

lemma float_eq_sym: "float_eq a b = float_eq b a"
  by (auto simp: float_eq_def)

lemma float_eq_trans: "float_eq a b \<Longrightarrow> float_eq b c \<Longrightarrow> float_eq a c"
  by (auto simp: float_eq_def split: if_splits)

lemma float2_eq_trans: "float2_eq a b \<Longrightarrow> float2_eq b c \<Longrightarrow> float2_eq a c"
  unfolding float2_eq_def by (blast intro: float_eq_trans)

lemma corner_eq_sym: "corner_eq a b j = corner_eq b a j"
  by (auto simp: corner_eq_def float2_eq_def float_eq_sym)

lemma corner_eq_trans: "corner_eq a b j \<Longrightarrow> corner_eq b c j \<Longrightarrow> corner_eq a c j"
  unfolding corner_eq_def by (auto intro: float2_eq_trans)

lemma corner_eq_refl: "corner_eq a a j = (\<not> float2_has_nan (at4 (uv a) j))"
  by (auto simp: corner_eq_def float2_eq_def float2_has_nan_def float_eq_def)

lemma quiet_nan_is_nan: "float_is_nan (Float 0x7FC00000)"
  by (simp add: float_is_nan_def)

lemma nan_subpatch_differs_from_itself: "\<not> SubPatch_eq nan_subpatch nan_subpatch"
  by (simp add: SubPatch_eq_corners corner_eq_def nan_subpatch_def float2_eq_def float_eq_def
      quiet_nan_is_nan)

lemma quad_subpatch_no_nan: "\<not> SubPatch_uv_has_nan quad_subpatch"
  by (simp add: SubPatch_uv_has_nan_def quad_subpatch_def unit_uvs_def float2_has_nan_def
      float_is_nan_def)

text \<open>
  C6, as stated: \<open>a == b\<close> holds iff \<open>a\<close> and \<open>b\<close> have the same parent patch index,
  the same 4 edge factors and the same 4 corner UVs. It fails for a subpatch whose
  first corner UV has a NaN component, compared with itself: all three fields are the
  same, and \<open>operator ==\<close> returns false, since \<open>uv[0] != other.uv[0]\<close> is true.
\<close>

theorem SubPatch_eq_same_fields_counterexample:
  "\<not> (SubPatch_eq nan_subpatch nan_subpatch
        = (patch nan_subpatch = patch nan_subpatch
           \<and> edge_factors nan_subpatch = edge_factors nan_subpatch
           \<and> uv nan_subpatch = uv nan_subpatch))"
  using nan_subpatch_differs_from_itself by simp

text \<open>
  C6, amended: \<open>a == b\<close> holds iff \<open>a\<close> and \<open>b\<close> have the same parent patch index and
  the same 4 edge factors, and each of the 4 corner UVs of \<open>a\<close> compares equal to its
  counterpart in \<open>b\<close> under the \<open>float2\<close> comparison (both components equal as floats:
  a NaN equals nothing, the two zeros equal each other). The bounds field plays no
  part: replacing the bounds of either side leaves the result unchanged.
\<close>

theorem SubPatch_eq_iff:
  "SubPatch_eq a b
     = (patch a = patch b \<and> edge_factors a = edge_factors b
        \<and> float2_eq (at4 (uv a) 0) (at4 (uv b) 0) \<and> float2_eq (at4 (uv a) 1) (at4 (uv b) 1)
        \<and> float2_eq (at4 (uv a) 2) (at4 (uv b) 2) \<and> float2_eq (at4 (uv a) 3) (at4 (uv b) 3))
   \<and> SubPatch_eq (a\<lparr>bounds := box_a\<rparr>) (b\<lparr>bounds := box_b\<rparr>) = SubPatch_eq a b"
proof
  show "SubPatch_eq a b
     = (patch a = patch b \<and> edge_factors a = edge_factors b
        \<and> float2_eq (at4 (uv a) 0) (at4 (uv b) 0) \<and> float2_eq (at4 (uv a) 1) (at4 (uv b) 1)
        \<and> float2_eq (at4 (uv a) 2) (at4 (uv b) 2) \<and> float2_eq (at4 (uv a) 3) (at4 (uv b) 3))"
    unfolding SubPatch_eq_corners corner_eq_def array4_eq_iff [of "edge_factors a"] by blast
  show "SubPatch_eq (a\<lparr>bounds := box_a\<rparr>) (b\<lparr>bounds := box_b\<rparr>) = SubPatch_eq a b"
    by (simp add: SubPatch_eq_corners corner_eq_def)
qed

theorem SubPatch_eq_iff_witness:
  "SubPatch_eq quad_subpatch (quad_subpatch\<lparr>bounds := unit_box\<rparr>)
   \<and> \<not> SubPatch_eq quad_subpatch (quad_subpatch\<lparr>patch := 1\<rparr>)"
  using SubPatch_eq_iff [of quad_subpatch "quad_subpatch\<lparr>bounds := unit_box\<rparr>"]
        SubPatch_eq_iff [of quad_subpatch "quad_subpatch\<lparr>patch := 1\<rparr>"]
  by (simp add: quad_subpatch_def unit_uvs_def float2_eq_def float_eq_def float_is_nan_def
      float_is_zero_def)

text \<open>
  C10, as stated: \<open>a != b\<close> is the negation of \<open>a == b\<close>, so subpatch equality is an
  equivalence relation (reflexive, symmetric, transitive). Reflexivity fails: for the
  subpatch whose first corner UV has a NaN component, \<open>a != a\<close> is true and \<open>a == a\<close>
  is false.
\<close>

theorem SubPatch_eq_reflexive_counterexample:
  "SubPatch_ne nan_subpatch nan_subpatch \<and> \<not> SubPatch_eq nan_subpatch nan_subpatch"
  using nan_subpatch_differs_from_itself by (simp add: SubPatch_ne_def)

text \<open>
  C10, amended: \<open>a != b\<close> is exactly the negation of \<open>a == b\<close>; \<open>==\<close> is symmetric
  and transitive on all subpatches; and \<open>a == a\<close> holds exactly for the subpatches
  none of whose corner UVs has a NaN component, so \<open>==\<close> is an equivalence relation on
  those.
\<close>

theorem SubPatch_ne_negates_partial_equivalence:
  "SubPatch_ne a b = (\<not> SubPatch_eq a b)
   \<and> SubPatch_eq a b = SubPatch_eq b a
   \<and> (SubPatch_eq a b \<and> SubPatch_eq b c \<longrightarrow> SubPatch_eq a c)
   \<and> SubPatch_eq a a = (\<not> SubPatch_uv_has_nan a)"
proof (intro conjI impI)
  show "SubPatch_ne a b = (\<not> SubPatch_eq a b)" by (simp add: SubPatch_ne_def)
  show "SubPatch_eq a b = SubPatch_eq b a"
    unfolding SubPatch_eq_corners corner_eq_sym [of a b] by auto
  show "SubPatch_eq a a = (\<not> SubPatch_uv_has_nan a)"
    unfolding SubPatch_eq_corners corner_eq_refl SubPatch_uv_has_nan_def by simp
next
  assume "SubPatch_eq a b \<and> SubPatch_eq b c"
  then show "SubPatch_eq a c"
    unfolding SubPatch_eq_corners by (auto intro: corner_eq_trans)
qed

theorem SubPatch_ne_negates_partial_equivalence_witness:
  "SubPatch_eq quad_subpatch quad_subpatch \<and> \<not> SubPatch_ne quad_subpatch quad_subpatch"
  using SubPatch_ne_negates_partial_equivalence [of quad_subpatch quad_subpatch quad_subpatch]
        quad_subpatch_no_nan
  by simp

subsection \<open>Update flags\<close>

lemma length_meshes_step: "length (meshes (step e scene)) = length (meshes scene)"
  by (cases e) (auto simp: tag_update_def device_update_def split: pass_outcome.splits)

lemma length_meshes_run: "length (meshes (run es scene)) = length (meshes scene)"
  by (induction es arbitrary: scene) (simp_all add: length_meshes_step)

lemma Mesh_tag_update_keeps:
  "need_update (Mesh_tag_update r m) \<and>
   (need_update_rebuild m \<longrightarrow> need_update_rebuild (Mesh_tag_update r m))"
  by (simp add: Mesh_tag_update_def Let_def)

lemma dirty_tag_update:
  assumes "i < length (meshes scene)"
  shows "dirty (tag_update i True scene) i"
  using assms by (simp add: dirty_def both_flags_def tag_update_def Mesh_tag_update_def)

lemma dirty_step:
  assumes "dirty scene i" and "e \<noteq> DeviceUpdate Completed"
  shows "dirty (step e scene) i"
proof (cases e)
  case (TagUpdate j r)
  show ?thesis
  proof (cases "j = i \<and> j < length (meshes scene)")
    case True
    then show ?thesis using assms(1) TagUpdate Mesh_tag_update_keeps [of r "meshes scene ! i"]
      by (simp add: dirty_def both_flags_def tag_update_def)
  next
    case False
    then have "(meshes scene)[j := Mesh_tag_update r (meshes scene ! j)] ! i = meshes scene ! i"
      by (cases "j = i") (simp_all add: list_update_beyond)
    then show ?thesis using assms(1) TagUpdate
      by (simp add: dirty_def both_flags_def tag_update_def)
  qed
next
  case (DeviceUpdate outcome)
  with assms(2) have "outcome = Cancelled" by (cases outcome) auto
  with DeviceUpdate assms(1) show ?thesis by (simp add: device_update_def)
qed

lemma dirty_run:
  assumes "dirty scene i" and "DeviceUpdate Completed \<notin> set es"
  shows "dirty (run es scene) i"
  using assms
proof (induction es arbitrary: scene)
  case Nil
  then show ?case by simp
next
  case (Cons e es)
  then have "dirty (step e scene) i" by (intro dirty_step) auto
  with Cons show ?case by simp
qed

lemma completed_pass_clears:
  assumes "manager_need_update (mesh_manager scene)" and "i < length (meshes scene)"
  shows "no_flag (device_update Completed scene) i"
  using assms by (simp add: device_update_def no_flag_def Mesh_clear_update_def)

text \<open>
  C3. After \<open>tag_update(scene, rebuild = true)\<close> on a mesh of the scene, \<open>need_update\<close>
  and \<open>need_update_rebuild\<close> of that mesh are both true; they are still both true
  after any number of further taggings (of any mesh, with either value of \<open>rebuild\<close>)
  and cancelled passes; and after the next pass that completes both are false.
\<close>

theorem tag_update_rebuild_dirty_until_completed_pass:
  assumes "i < length (meshes scene)" and "DeviceUpdate Completed \<notin> set es"
  shows "(\<forall>k. both_flags (run (take k es) (tag_update i True scene)) i)
         \<and> no_flag (device_update Completed (run es (tag_update i True scene))) i"
proof
  have d0: "dirty (tag_update i True scene) i" using assms(1) by (rule dirty_tag_update)
  show "\<forall>k. both_flags (run (take k es) (tag_update i True scene)) i"
  proof
    fix k
    have "DeviceUpdate Completed \<notin> set (take k es)"
      using assms(2) by (meson in_set_takeD)
    with d0 have "dirty (run (take k es) (tag_update i True scene)) i" by (rule dirty_run)
    then show "both_flags (run (take k es) (tag_update i True scene)) i" by (simp add: dirty_def)
  qed
  have "dirty (run es (tag_update i True scene)) i" using d0 assms(2) by (rule dirty_run)
  moreover have "i < length (meshes (run es (tag_update i True scene)))"
    using assms(1) by (simp add: length_meshes_run tag_update_def)
  ultimately show "no_flag (device_update Completed (run es (tag_update i True scene))) i"
    by (simp add: dirty_def completed_pass_clears)
qed

theorem tag_update_rebuild_dirty_until_completed_pass_witness:
  "both_flags (tag_update 0 True sample_scene) 0
   \<and> both_flags (run [TagUpdate 1 False, DeviceUpdate Cancelled] (tag_update 0 True sample_scene)) 0
   \<and> no_flag (device_update Completed
        (run [TagUpdate 1 False, DeviceUpdate Cancelled] (tag_update 0 True sample_scene))) 0"
proof -
  have h1: "0 < length (meshes sample_scene)" by (simp add: sample_scene_def)
  have h2: "DeviceUpdate Completed \<notin> set [TagUpdate 1 False, DeviceUpdate Cancelled]" by simp
  note t = tag_update_rebuild_dirty_until_completed_pass [OF h1 h2]
  from t have a: "both_flags (run (take k [TagUpdate 1 False, DeviceUpdate Cancelled])
                    (tag_update 0 True sample_scene)) 0" for k
    by blast
  from a [of 0] a [of 2] t show ?thesis by simp
qed

subsection \<open>Own BVH\<close>

text \<open>
  C5. \<open>need_build_bvh\<close> is true for a mesh referenced by at least 2 instances that
  requires mesh-local intersection handling, and false for a mesh with a single
  instance and no such requirement. It is a function of these two facts alone.
\<close>

theorem need_build_bvh_instances_and_intersection:
  "(2 \<le> num_instances \<longrightarrow> need_build_bvh num_instances True)
   \<and> \<not> need_build_bvh 1 False"
  by (simp add: need_build_bvh_def)

theorem need_build_bvh_instances_and_intersection_witness:
  "(2::nat) \<le> 3 \<and> need_build_bvh 3 True \<and> \<not> need_build_bvh 1 False"
  using need_build_bvh_instances_and_intersection [of 3] by simp

subsection \<open>Device Packer\<close>

lemma store_length: "store xs i x = Some ys \<Longrightarrow> length ys = length xs"
  by (auto simp: store_def split: if_splits)

lemma store_nth: "store xs i x = Some ys \<Longrightarrow> ys ! j = (if j = i then x else xs ! j)"
  by (auto simp: store_def split: if_splits)

lemma store_again: "i < length xs \<Longrightarrow> xs ! i = x \<Longrightarrow> store xs i x = Some xs"
  by (auto simp: store_def)

text \<open>A loop entered at slot \<open>i\<close> leaves the lengths and the slots below \<open>i\<close> alone.\<close>

lemma pack_verts_loop_frame:
  "pack_verts_loop m off ts i tv ti = Some (tv', ti') \<Longrightarrow>
     length tv' = length tv \<and> length ti' = length ti \<and>
     (\<forall>j < 3 * i. tv' ! j = tv ! j) \<and> (\<forall>j < i. ti' ! j = ti ! j)"
proof (induction ts arbitrary: i tv ti)
  case Nil
  then show ?case by simp
next
  case (Cons t ts)
  from Cons.prems obtain p0 p1 p2 tv0 tv1 tv2 ti0 where
    s0: "store tv (3 * i) p0 = Some tv0" and s1: "store tv0 (3 * i + 1) p1 = Some tv1"
    and s2: "store tv1 (3 * i + 2) p2 = Some tv2"
    and s3: "store ti i (tri_index_record t off) = Some ti0"
    and rest: "pack_verts_loop m off ts (Suc i) tv2 ti0 = Some (tv', ti')"
    by (auto split: option.splits)
  from Cons.IH [OF rest] have
    l: "length tv' = length tv2" "length ti' = length ti0"
    and f1: "\<forall>j < 3 * Suc i. tv' ! j = tv2 ! j" and f2: "\<forall>j < Suc i. ti' ! j = ti0 ! j"
    by auto
  have "length tv' = length tv" using l s0 s1 s2 by (simp add: store_length)
  moreover have "length ti' = length ti" using l s3 by (simp add: store_length)
  moreover have "\<forall>j < 3 * i. tv' ! j = tv ! j"
    using f1 by (simp add: store_nth [OF s0] store_nth [OF s1] store_nth [OF s2])
  moreover have "\<forall>j < i. ti' ! j = ti ! j"
    using f2 by (simp add: store_nth [OF s3])
  ultimately show ?case by simp
qed

lemma pack_verts_loop_again:
  "pack_verts_loop m off ts i tv ti = Some (tv', ti') \<Longrightarrow>
   pack_verts_loop m off ts i tv' ti' = Some (tv', ti')"
proof (induction ts arbitrary: i tv ti)
  case Nil
  then show ?case by simp
next
  case (Cons t ts)
  from Cons.prems obtain p0 p1 p2 tv0 tv1 tv2 ti0 where
    v0: "vert_at m (at3 (tri_v t) 0) = Some p0" and v1: "vert_at m (at3 (tri_v t) 1) = Some p1"
    and v2: "vert_at m (at3 (tri_v t) 2) = Some p2"
    and s0: "store tv (3 * i) p0 = Some tv0" and s1: "store tv0 (3 * i + 1) p1 = Some tv1"
    and s2: "store tv1 (3 * i + 2) p2 = Some tv2"
    and s3: "store ti i (tri_index_record t off) = Some ti0"
    and rest: "pack_verts_loop m off ts (Suc i) tv2 ti0 = Some (tv', ti')"
    by (auto split: option.splits)
  note fr = pack_verts_loop_frame [OF rest]
  have len: "3 * i + 2 < length tv'" "i < length ti'"
    using fr s0 s1 s2 s3 by (auto simp: store_def split: if_splits)
  have a0: "tv' ! (3 * i) = p0"
    using fr by (simp add: store_nth [OF s0] store_nth [OF s1] store_nth [OF s2])
  have a1: "tv' ! (3 * i + 1) = p1"
    using fr by (simp add: store_nth [OF s0] store_nth [OF s1] store_nth [OF s2])
  have a2: "tv' ! (3 * i + 2) = p2"
    using fr by (simp add: store_nth [OF s0] store_nth [OF s1] store_nth [OF s2])
  have a3: "ti' ! i = tri_index_record t off" using fr by (simp add: store_nth [OF s3])
  have r0: "store tv' (3 * i) p0 = Some tv'" using len a0 by (intro store_again) auto
  have r1: "store tv' (3 * i + 1) p1 = Some tv'" using len a1 by (intro store_again) auto
  have r2: "store tv' (3 * i + 2) p2 = Some tv'" using len a2 by (intro store_again) auto
  have r3: "store ti' i (tri_index_record t off) = Some ti'"
    using len a3 by (intro store_again) auto
  show ?case using Cons.IH [OF rest] v0 v1 v2 r0 r1 r2 r3 by simp
qed

lemma pack_keys_loop_frame:
  "pack_keys_loop ks j co = Some co' \<Longrightarrow>
     length co' = length co \<and> (\<forall>n < j. co' ! n = co ! n)"
proof (induction ks arbitrary: j co)
  case Nil
  then show ?case by simp
next
  case (Cons k ks)
  from Cons.prems obtain co0 where s0: "store co j k = Some co0"
    and rest: "pack_keys_loop ks (Suc j) co0 = Some co'"
    by (auto split: option.splits)
  from Cons.IH [OF rest] show ?case
    by (simp add: store_length [OF s0] store_nth [OF s0])
qed

lemma pack_keys_loop_again:
  "pack_keys_loop ks j co = Some co' \<Longrightarrow> pack_keys_loop ks j co' = Some co'"
proof (induction ks arbitrary: j co)
  case Nil
  then show ?case by simp
next
  case (Cons k ks)
  from Cons.prems obtain co0 where s0: "store co j k = Some co0"
    and rest: "pack_keys_loop ks (Suc j) co0 = Some co'"
    by (auto split: option.splits)
  note fr = pack_keys_loop_frame [OF rest]
  have "j < length co'" using fr s0 by (auto simp: store_def split: if_splits)
  moreover have "co' ! j = k" using fr by (simp add: store_nth [OF s0])
  ultimately have "store co' j k = Some co'" by (rule store_again)
  then show ?case using Cons.IH [OF rest] by simp
qed

lemma pack_curves_loop_frame:
  "pack_curves_loop off cs i cd = Some cd' \<Longrightarrow>
     length cd' = length cd \<and> (\<forall>n < i. cd' ! n = cd ! n)"
proof (induction cs arbitrary: i cd)
  case Nil
  then show ?case by simp
next
  case (Cons c cs)
  from Cons.prems obtain r cd0 where r: "curve_data_record c off = Some r"
    and s0: "store cd i r = Some cd0"
    and rest: "pack_curves_loop off cs (Suc i) cd0 = Some cd'"
    by (auto split: option.splits)
  from Cons.IH [OF rest] show ?case
    by (simp add: store_length [OF s0] store_nth [OF s0])
qed

lemma pack_curves_loop_again:
  "pack_curves_loop off cs i cd = Some cd' \<Longrightarrow> pack_curves_loop off cs i cd' = Some cd'"
proof (induction cs arbitrary: i cd)
  case Nil
  then show ?case by simp
next
  case (Cons c cs)
  from Cons.prems obtain r cd0 where r: "curve_data_record c off = Some r"
    and s0: "store cd i r = Some cd0"
    and rest: "pack_curves_loop off cs (Suc i) cd0 = Some cd'"
    by (auto split: option.splits)
  note fr = pack_curves_loop_frame [OF rest]
  have "i < length cd'" using fr s0 by (auto simp: store_def split: if_splits)
  moreover have "cd' ! i = r" using fr by (simp add: store_nth [OF s0])
  ultimately have "store cd' i r = Some cd'" by (rule store_again)
  then show ?case using Cons.IH [OF rest] r by simp
qed

text \<open>
  Two runs of a loop from the same slot write the same values, whatever the arrays
  held before, and a run that succeeds has room for every slot it writes.
\<close>

lemma pack_verts_loop_agree:
  "pack_verts_loop m off ts i tvA tiA = Some (tvA', tiA') \<Longrightarrow>
   pack_verts_loop m off ts i tvB tiB = Some (tvB', tiB') \<Longrightarrow>
     (\<forall>j. 3 * i \<le> j \<and> j < 3 * (i + length ts) \<longrightarrow> tvA' ! j = tvB' ! j)
     \<and> (\<forall>j. i \<le> j \<and> j < i + length ts \<longrightarrow> tiA' ! j = tiB' ! j)"
proof (induction ts arbitrary: i tvA tiA tvB tiB)
  case Nil
  then show ?case by auto
next
  case (Cons t ts)
  from Cons.prems(1) obtain p0 p1 p2 a0 a1 a2 ai where
    v0: "vert_at m (at3 (tri_v t) 0) = Some p0" and v1: "vert_at m (at3 (tri_v t) 1) = Some p1"
    and v2: "vert_at m (at3 (tri_v t) 2) = Some p2"
    and sa0: "store tvA (3 * i) p0 = Some a0" and sa1: "store a0 (3 * i + 1) p1 = Some a1"
    and sa2: "store a1 (3 * i + 2) p2 = Some a2"
    and sa3: "store tiA i (tri_index_record t off) = Some ai"
    and restA: "pack_verts_loop m off ts (Suc i) a2 ai = Some (tvA', tiA')"
    by (auto split: option.splits)
  from Cons.prems(2) v0 v1 v2 obtain b0 b1 b2 bi where
    sb0: "store tvB (3 * i) p0 = Some b0" and sb1: "store b0 (3 * i + 1) p1 = Some b1"
    and sb2: "store b1 (3 * i + 2) p2 = Some b2"
    and sb3: "store tiB i (tri_index_record t off) = Some bi"
    and restB: "pack_verts_loop m off ts (Suc i) b2 bi = Some (tvB', tiB')"
    by (auto split: option.splits)
  note frA = pack_verts_loop_frame [OF restA] and frB = pack_verts_loop_frame [OF restB]
  note ih = Cons.IH [OF restA restB]
  have head: "tvA' ! j = tvB' ! j" if "3 * i \<le> j" "j < 3 * Suc i" for j
  proof -
    have "tvA' ! j = a2 ! j" "tvB' ! j = b2 ! j" using frA frB that by auto
    moreover have "j = 3 * i \<or> j = 3 * i + 1 \<or> j = 3 * i + 2" using that by arith
    ultimately show ?thesis
      by (auto simp: store_nth [OF sa0] store_nth [OF sa1] store_nth [OF sa2]
          store_nth [OF sb0] store_nth [OF sb1] store_nth [OF sb2])
  qed
  have headi: "tiA' ! i = tiB' ! i"
    using frA frB by (simp add: store_nth [OF sa3] store_nth [OF sb3])
  have "tvA' ! j = tvB' ! j" if "3 * i \<le> j" "j < 3 * (i + length (t # ts))" for j
  proof (cases "j < 3 * Suc i")
    case True
    with that show ?thesis by (intro head)
  next
    case False
    with that ih show ?thesis by simp
  qed
  moreover have "tiA' ! j = tiB' ! j" if "i \<le> j" "j < i + length (t # ts)" for j
  proof (cases "j = i")
    case True
    with headi show ?thesis by simp
  next
    case False
    with that ih show ?thesis by simp
  qed
  ultimately show ?case by blast
qed

lemma pack_keys_loop_agree:
  "pack_keys_loop ks i coA = Some coA' \<Longrightarrow> pack_keys_loop ks i coB = Some coB' \<Longrightarrow>
     (\<forall>j. i \<le> j \<and> j < i + length ks \<longrightarrow> coA' ! j = coB' ! j)"
proof (induction ks arbitrary: i coA coB)
  case Nil
  then show ?case by auto
next
  case (Cons k ks)
  from Cons.prems(1) obtain a0 where sa: "store coA i k = Some a0"
    and restA: "pack_keys_loop ks (Suc i) a0 = Some coA'"
    by (auto split: option.splits)
  from Cons.prems(2) obtain b0 where sb: "store coB i k = Some b0"
    and restB: "pack_keys_loop ks (Suc i) b0 = Some coB'"
    by (auto split: option.splits)
  note frA = pack_keys_loop_frame [OF restA] and frB = pack_keys_loop_frame [OF restB]
  note ih = Cons.IH [OF restA restB]
  have headi: "coA' ! i = coB' ! i"
    using frA frB by (simp add: store_nth [OF sa] store_nth [OF sb])
  have "coA' ! j = coB' ! j" if "i \<le> j" "j < i + length (k # ks)" for j
  proof (cases "j = i")
    case True
    with headi show ?thesis by simp
  next
    case False
    with that ih show ?thesis by simp
  qed
  then show ?case by blast
qed

lemma pack_curves_loop_agree:
  "pack_curves_loop off cs i cdA = Some cdA' \<Longrightarrow> pack_curves_loop off cs i cdB = Some cdB' \<Longrightarrow>
     (\<forall>j. i \<le> j \<and> j < i + length cs \<longrightarrow> cdA' ! j = cdB' ! j)"
proof (induction cs arbitrary: i cdA cdB)
  case Nil
  then show ?case by auto
next
  case (Cons c cs)
  from Cons.prems(1) obtain r a0 where r: "curve_data_record c off = Some r"
    and sa: "store cdA i r = Some a0"
    and restA: "pack_curves_loop off cs (Suc i) a0 = Some cdA'"
    by (auto split: option.splits)
  from Cons.prems(2) r obtain b0 where sb: "store cdB i r = Some b0"
    and restB: "pack_curves_loop off cs (Suc i) b0 = Some cdB'"
    by (auto split: option.splits)
  note frA = pack_curves_loop_frame [OF restA] and frB = pack_curves_loop_frame [OF restB]
  note ih = Cons.IH [OF restA restB]
  have headi: "cdA' ! i = cdB' ! i"
    using frA frB by (simp add: store_nth [OF sa] store_nth [OF sb])
  have "cdA' ! j = cdB' ! j" if "i \<le> j" "j < i + length (c # cs)" for j
  proof (cases "j = i")
    case True
    with headi show ?thesis by simp
  next
    case False
    with that ih show ?thesis by simp
  qed
  then show ?case by blast
qed


lemma pack_verts_loop_fits:
  "pack_verts_loop m off ts i tv ti = Some (tv', ti') \<Longrightarrow> ts \<noteq> [] \<Longrightarrow>
     3 * (i + length ts) \<le> length tv \<and> i + length ts \<le> length ti"
proof (induction ts arbitrary: i tv ti)
  case Nil
  then show ?case by simp
next
  case (Cons t ts)
  from Cons.prems(1) obtain p0 p1 p2 tv0 tv1 tv2 ti0 where
    s0: "store tv (3 * i) p0 = Some tv0" and s1: "store tv0 (3 * i + 1) p1 = Some tv1"
    and s2: "store tv1 (3 * i + 2) p2 = Some tv2"
    and s3: "store ti i (tri_index_record t off) = Some ti0"
    and rest: "pack_verts_loop m off ts (Suc i) tv2 ti0 = Some (tv', ti')"
    by (auto split: option.splits)
  have l: "length tv2 = length tv" "length ti0 = length ti"
    using s0 s1 s2 s3 by (simp_all add: store_length)
  show ?case
  proof (cases "ts = []")
    case True
    have "3 * i + 2 < length tv1" "i < length ti"
      using s2 s3 by (auto simp: store_def split: if_splits)
    then show ?thesis using True s0 s1 by (simp add: store_length)
  next
    case False
    from Cons.IH [OF rest False] l show ?thesis by simp
  qed
qed

lemma pack_keys_loop_fits:
  "pack_keys_loop ks i co = Some co' \<Longrightarrow> ks \<noteq> [] \<Longrightarrow> i + length ks \<le> length co"
proof (induction ks arbitrary: i co)
  case Nil
  then show ?case by simp
next
  case (Cons k ks)
  from Cons.prems(1) obtain co0 where s0: "store co i k = Some co0"
    and rest: "pack_keys_loop ks (Suc i) co0 = Some co'"
    by (auto split: option.splits)
  show ?case
  proof (cases "ks = []")
    case True
    then show ?thesis using s0 by (auto simp: store_def split: if_splits)
  next
    case False
    from Cons.IH [OF rest False] show ?thesis by (simp add: store_length [OF s0])
  qed
qed

lemma pack_curves_loop_fits:
  "pack_curves_loop off cs i cd = Some cd' \<Longrightarrow> cs \<noteq> [] \<Longrightarrow> i + length cs \<le> length cd"
proof (induction cs arbitrary: i cd)
  case Nil
  then show ?case by simp
next
  case (Cons c cs)
  from Cons.prems(1) obtain r cd0 where s0: "store cd i r = Some cd0"
    and rest: "pack_curves_loop off cs (Suc i) cd0 = Some cd'"
    by (auto split: option.splits)
  show ?case
  proof (cases "cs = []")
    case True
    then show ?thesis using s0 by (auto simp: store_def split: if_splits)
  next
    case False
    from Cons.IH [OF rest False] show ?thesis by (simp add: store_length [OF s0])
  qed
qed

lemma pack_verts_loop_same_prefix:
  assumes a: "pack_verts_loop m off ts 0 tvA tiA = Some (tvA', tiA')"
    and b: "pack_verts_loop m off ts 0 tvB tiB = Some (tvB', tiB')"
  shows "take (3 * length ts) tvA' = take (3 * length ts) tvB'
         \<and> take (length ts) tiA' = take (length ts) tiB'"
proof (cases "ts = []")
  case True
  then show ?thesis by simp
next
  case False
  note fa = pack_verts_loop_fits [OF a False] and fb = pack_verts_loop_fits [OF b False]
  note la = pack_verts_loop_frame [OF a] and lb = pack_verts_loop_frame [OF b]
  note ag = pack_verts_loop_agree [OF a b]
  have "take (3 * length ts) tvA' = take (3 * length ts) tvB'"
    using fa fb la lb ag by (intro nth_take_lemma) auto
  moreover have "take (length ts) tiA' = take (length ts) tiB'"
    using fa fb la lb ag by (intro nth_take_lemma) auto
  ultimately show ?thesis ..
qed

lemma pack_keys_loop_same_prefix:
  assumes a: "pack_keys_loop ks 0 coA = Some coA'" and b: "pack_keys_loop ks 0 coB = Some coB'"
  shows "take (length ks) coA' = take (length ks) coB'"
proof (cases "ks = []")
  case True
  then show ?thesis by simp
next
  case False
  note fa = pack_keys_loop_fits [OF a False] and fb = pack_keys_loop_fits [OF b False]
  note la = pack_keys_loop_frame [OF a] and lb = pack_keys_loop_frame [OF b]
  note ag = pack_keys_loop_agree [OF a b]
  show ?thesis using fa fb la lb ag by (intro nth_take_lemma) auto
qed

lemma pack_curves_loop_same_prefix:
  assumes a: "pack_curves_loop off cs 0 cdA = Some cdA'"
    and b: "pack_curves_loop off cs 0 cdB = Some cdB'"
  shows "take (length cs) cdA' = take (length cs) cdB'"
proof (cases "cs = []")
  case True
  then show ?thesis by simp
next
  case False
  note fa = pack_curves_loop_fits [OF a False] and fb = pack_curves_loop_fits [OF b False]
  note la = pack_curves_loop_frame [OF a] and lb = pack_curves_loop_frame [OF b]
  note ag = pack_curves_loop_agree [OF a b]
  show ?thesis using fa fb la lb ag by (intro nth_take_lemma) auto
qed

lemma pack_verts_fresh:
  assumes "pack_verts m tvA tiA off = Some (mA, tvA', tiA')"
    and "pack_verts m tvB tiB off = Some (mB, tvB', tiB')"
  shows "mB = mA \<and> take (3 * length (triangles m)) tvB' = take (3 * length (triangles m)) tvA'
         \<and> take (length (triangles m)) tiB' = take (length (triangles m)) tiA'"
proof -
  from assms have a: "pack_verts_loop m off (triangles m) 0 tvA tiA = Some (tvA', tiA')"
    and b: "pack_verts_loop m off (triangles m) 0 tvB tiB = Some (tvB', tiB')"
    and m: "mA = m\<lparr>vert_offset := off\<rparr>" "mB = m\<lparr>vert_offset := off\<rparr>"
    by (auto simp: pack_verts_def split: option.splits)
  from pack_verts_loop_same_prefix [OF a b] m show ?thesis by simp
qed

lemma pack_curves_fresh:
  assumes "pack_curves m coA cdA off = Some (mA, coA', cdA')"
    and "pack_curves m coB cdB off = Some (mB, coB', cdB')"
  shows "mB = mA \<and> take (length (curve_keys m)) coB' = take (length (curve_keys m)) coA'
         \<and> take (length (curves m)) cdB' = take (length (curves m)) cdA'"
proof -
  from assms have ka: "pack_keys_loop (curve_keys m) 0 coA = Some coA'"
    and kb: "pack_keys_loop (curve_keys m) 0 coB = Some coB'"
    and ca: "pack_curves_loop off (curves m) 0 cdA = Some cdA'"
    and cb: "pack_curves_loop off (curves m) 0 cdB = Some cdB'"
    and m: "mA = m\<lparr>curvekey_offset := off\<rparr>" "mB = m\<lparr>curvekey_offset := off\<rparr>"
    by (auto simp: pack_curves_def split: option.splits)
  from pack_keys_loop_same_prefix [OF ka kb] pack_curves_loop_same_prefix [OF ca cb] m
  show ?thesis by simp
qed

lemma pack_verts_again:
  assumes "pack_verts m tri_verts tri_vindex off = Some (m1, tv1, ti1)"
  shows "pack_verts m1 tv1 ti1 off = Some (m1, tv1, ti1)
         \<and> pack_verts m tv1 ti1 off = Some (m1, tv1, ti1)"
proof -
  from assms have
    l: "pack_verts_loop m off (triangles m) 0 tri_verts tri_vindex = Some (tv1, ti1)"
    and m1: "m1 = m\<lparr>vert_offset := off\<rparr>"
    by (auto simp: pack_verts_def split: option.splits)
  have va: "vert_at m1 v = vert_at m v" for v by (simp add: m1 vert_at_def)
  have same: "pack_verts_loop m1 off ts i a b = pack_verts_loop m off ts i a b" for ts i a b
    by (induction ts arbitrary: i a b) (simp_all add: va split: option.splits)
  have "pack_verts m1 tv1 ti1 off = Some (m1, tv1, ti1)"
    using pack_verts_loop_again [OF l] by (simp add: pack_verts_def same) (simp add: m1)
  moreover have "pack_verts m tv1 ti1 off = Some (m1, tv1, ti1)"
    using pack_verts_loop_again [OF l] by (simp add: pack_verts_def m1)
  ultimately show ?thesis ..
qed

lemma pack_curves_again:
  assumes "pack_curves m curve_key_co curve_data off = Some (m2, co2, cd2)"
  shows "pack_curves m2 co2 cd2 off = Some (m2, co2, cd2)
         \<and> pack_curves m co2 cd2 off = Some (m2, co2, cd2)"
proof -
  from assms have k: "pack_keys_loop (curve_keys m) 0 curve_key_co = Some co2"
    and c: "pack_curves_loop off (curves m) 0 curve_data = Some cd2"
    and m2: "m2 = m\<lparr>curvekey_offset := off\<rparr>"
    by (auto simp: pack_curves_def split: option.splits)
  show ?thesis
    using pack_keys_loop_again [OF k] pack_curves_loop_again [OF c]
    by (simp add: pack_curves_def m2)
qed

lemma sample_pack_verts:
  "pack_verts sample_mesh sample_tri_verts sample_tri_vindex 10 =
     Some (sample_mesh\<lparr>vert_offset := 10\<rparr>, packed_tri_verts, packed_tri_vindex)"
  by (simp add: pack_verts_def sample_mesh_def sample_tri_verts_def sample_tri_vindex_def
      packed_tri_verts_def packed_tri_vindex_def
      vert_at_def store_def tri_index_record_def eval_nat_numeral)

lemma blank_pack_verts:
  "pack_verts sample_mesh blank_tri_verts blank_tri_vindex 10 =
     Some (sample_mesh\<lparr>vert_offset := 10\<rparr>, take 3 packed_tri_verts, take 1 packed_tri_vindex)"
  by (simp add: pack_verts_def sample_mesh_def blank_tri_verts_def blank_tri_vindex_def
      packed_tri_verts_def packed_tri_vindex_def
      vert_at_def store_def tri_index_record_def eval_nat_numeral)

lemma sample_pack_curves:
  "pack_curves sample_mesh sample_curve_key_co sample_curve_data 10 =
     Some (sample_mesh\<lparr>curvekey_offset := 10\<rparr>, packed_curve_key_co, packed_curve_data)"
  by (simp add: pack_curves_def sample_mesh_def sample_curve_key_co_def sample_curve_data_def
      packed_curve_key_co_def packed_curve_data_def
      curve_data_record_def store_def eval_nat_numeral)

lemma blank_pack_curves:
  "pack_curves sample_mesh blank_curve_key_co blank_curve_data 10 =
     Some (sample_mesh\<lparr>curvekey_offset := 10\<rparr>, take 2 packed_curve_key_co,
           take 1 packed_curve_data)"
  by (simp add: pack_curves_def sample_mesh_def blank_curve_key_co_def blank_curve_data_def
      packed_curve_key_co_def packed_curve_data_def
      curve_data_record_def store_def eval_nat_numeral)

text \<open>
  C4. \<open>pack_verts\<close> and \<open>pack_curves\<close> are idempotent. When a packing succeeds,
  packing again with the same geometry and the same base offset into the arrays the
  first packing left succeeds and leaves the mesh and every slot of both arrays as
  they were (for the mesh as the first packing returned it, with the offset recorded,
  and for the mesh as it was before). And two successful packings of the same mesh
  with the same base offset into any two pairs of arrays return the same mesh and
  write the same values: the arrays agree on all the slots a packing writes (3 per
  triangle and 1 per triangle; 1 per curve key and 1 per curve).
\<close>

theorem pack_twice_same_buffers:
  "(pack_verts m tri_verts tri_vindex off = Some (m1, tv1, ti1) \<longrightarrow>
      pack_verts m1 tv1 ti1 off = Some (m1, tv1, ti1)
      \<and> pack_verts m tv1 ti1 off = Some (m1, tv1, ti1))
   \<and> (pack_verts m tri_verts tri_vindex off = Some (m1, tv1, ti1)
      \<and> pack_verts m tri_verts' tri_vindex' off = Some (m1', tv1', ti1') \<longrightarrow>
        m1' = m1
        \<and> take (3 * length (triangles m)) tv1' = take (3 * length (triangles m)) tv1
        \<and> take (length (triangles m)) ti1' = take (length (triangles m)) ti1)
   \<and> (pack_curves m curve_key_co curve_data off = Some (m2, co2, cd2) \<longrightarrow>
      pack_curves m2 co2 cd2 off = Some (m2, co2, cd2)
      \<and> pack_curves m co2 cd2 off = Some (m2, co2, cd2))
   \<and> (pack_curves m curve_key_co curve_data off = Some (m2, co2, cd2)
      \<and> pack_curves m curve_key_co' curve_data' off = Some (m2', co2', cd2') \<longrightarrow>
        m2' = m2
        \<and> take (length (curve_keys m)) co2' = take (length (curve_keys m)) co2
        \<and> take (length (curves m)) cd2' = take (length (curves m)) cd2)"
  using pack_verts_again [of m tri_verts tri_vindex off m1 tv1 ti1]
    pack_verts_fresh [of m tri_verts tri_vindex off m1 tv1 ti1 tri_verts' tri_vindex' m1' tv1' ti1']
    pack_curves_again [of m curve_key_co curve_data off m2 co2 cd2]
    pack_curves_fresh
      [of m curve_key_co curve_data off m2 co2 cd2 curve_key_co' curve_data' m2' co2' cd2']
  by blast

theorem pack_twice_same_buffers_witness:
  "pack_verts sample_mesh sample_tri_verts sample_tri_vindex 10
     = Some (sample_mesh\<lparr>vert_offset := 10\<rparr>, packed_tri_verts, packed_tri_vindex)
   \<and> pack_verts (sample_mesh\<lparr>vert_offset := 10\<rparr>) packed_tri_verts packed_tri_vindex 10
     = Some (sample_mesh\<lparr>vert_offset := 10\<rparr>, packed_tri_verts, packed_tri_vindex)
   \<and> pack_verts sample_mesh blank_tri_verts blank_tri_vindex 10
     = Some (sample_mesh\<lparr>vert_offset := 10\<rparr>, take 3 packed_tri_verts, take 1 packed_tri_vindex)
   \<and> pack_curves sample_mesh sample_curve_key_co sample_curve_data 10
     = Some (sample_mesh\<lparr>curvekey_offset := 10\<rparr>, packed_curve_key_co, packed_curve_data)
   \<and> pack_curves (sample_mesh\<lparr>curvekey_offset := 10\<rparr>) packed_curve_key_co packed_curve_data 10
     = Some (sample_mesh\<lparr>curvekey_offset := 10\<rparr>, packed_curve_key_co, packed_curve_data)
   \<and> pack_curves sample_mesh blank_curve_key_co blank_curve_data 10
     = Some (sample_mesh\<lparr>curvekey_offset := 10\<rparr>, take 2 packed_curve_key_co,
             take 1 packed_curve_data)"
  using pack_twice_same_buffers
      [where m = sample_mesh and off = 10
         and tri_verts = sample_tri_verts and tri_vindex = sample_tri_vindex
         and curve_key_co = sample_curve_key_co and curve_data = sample_curve_data
         and ?m1.0 = "sample_mesh\<lparr>vert_offset := 10\<rparr>"
         and ?tv1.0 = packed_tri_verts and ?ti1.0 = packed_tri_vindex
         and ?m2.0 = "sample_mesh\<lparr>curvekey_offset := 10\<rparr>"
         and ?co2.0 = packed_curve_key_co and ?cd2.0 = packed_curve_data
         and tri_verts' = blank_tri_verts and tri_vindex' = blank_tri_vindex
         and curve_key_co' = blank_curve_key_co and curve_data' = blank_curve_data
         and m1' = "sample_mesh\<lparr>vert_offset := 10\<rparr>"
         and tv1' = "take 3 packed_tri_verts" and ti1' = "take 1 packed_tri_vindex"
         and m2' = "sample_mesh\<lparr>curvekey_offset := 10\<rparr>"
         and co2' = "take 2 packed_curve_key_co" and cd2' = "take 1 packed_curve_data"]
    sample_pack_verts blank_pack_verts sample_pack_curves blank_pack_curves
  by simp

end
